theory Spec2Isabelle
  imports Main
begin

section \<open>JavaScript values used by the task store\<close>

text \<open>
  The fields of a task are read from a JSON file. The model keeps the four kinds of
  value the synchronisation engine distinguishes: \<open>undefined\<close> (a missing field),
  \<open>null\<close>, a number and a string. Numbers are integers (ids and dependency
  references of a task file); \<open>NaN\<close> and fractions do not occur in them. Strict
  equality \<open>===\<close> of two such values is equality of the datatype.
\<close>

datatype jv = JUndefined | JNull | JNum int | JStr string

definition digitChar :: "nat \<Rightarrow> char" where
  "digitChar d = char_of (48 + d)"

fun natToString :: "nat \<Rightarrow> string" where
  "natToString n = (if n < 10 then [digitChar n] else natToString (n div 10) @ [digitChar (n mod 10)])"

declare natToString.simps [simp del]

definition numToString :: "int \<Rightarrow> string" where
  "numToString n = (if n < 0 then CHR ''-'' # natToString (nat (- n)) else natToString (nat n))"

text \<open>The conversion a template literal \<open>`${v}`\<close> applies to a value.\<close>

fun toStr :: "jv \<Rightarrow> string" where
  "toStr JUndefined = ''undefined''"
| "toStr JNull = ''null''"
| "toStr (JNum n) = numToString n"
| "toStr (JStr s) = s"

text \<open>\<open>/^\d+$/.test(s)\<close> and \<open>Number(s)\<close> on a string of decimal digits.\<close>

definition isDigit :: "char \<Rightarrow> bool" where
  "isDigit c = (48 \<le> (of_char c :: nat) \<and> (of_char c :: nat) \<le> 57)"

definition allDigits :: "string \<Rightarrow> bool" where
  "allDigits s = (s \<noteq> [] \<and> list_all isDigit s)"

definition digitsToNum :: "string \<Rightarrow> int" where
  "digitsToNum s = foldl (\<lambda>acc c. 10 * acc + (int (of_char c) - 48)) 0 s"

text \<open>Truthiness: \<open>undefined\<close>, \<open>null\<close>, \<open>0\<close> and the empty string are falsy.\<close>

fun falsy :: "jv \<Rightarrow> bool" where
  "falsy JUndefined = True"
| "falsy JNull = True"
| "falsy (JNum n) = (n = 0)"
| "falsy (JStr s) = (s = [])"

section \<open>Tasks, subtasks and flattened entities\<close>

text \<open>
  A task, a subtask and a flattened task share their scalar fields. The record is
  polymorphic in the \<open>subtasks\<close> field: a task of the store carries
  \<open>Some\<close> list of subtask objects (or \<open>None\<close> when the field is not an array),
  a subtask carries nothing there, and a flattened task carries the list of compound
  ids. \<open>dependencies\<close> is \<open>None\<close> when the field is not an array.
\<close>

record 'sub entity =
  taskId :: jv
  title :: jv
  description :: jv
  details :: jv
  testStrategy :: jv
  status :: jv
  priority :: jv
  dependencies :: "jv list option"
  subtasks :: 'sub

type_synonym subtask = "unit entity"
type_synonym task = "subtask list option entity"

record flat = "jv list option entity" +
  parentId :: "jv option"
  isSubtask :: bool

section \<open>Snapshot Flattener (notion.js, flattenTasksWithTag and flattenTasksMap)\<close>

text \<open>
  The arrow function mapped over a subtask's dependencies; \<open>pid\<close> is the parent's
  id and \<open>subtaskIds\<close> the ids collected from the parent's subtasks.
  \<open>subtaskIds.includes(Number(dep))\<close> compares with a number, so a sibling whose id
  is the string \<open>"1"\<close> does not match.
\<close>

fun rewriteDep :: "jv \<Rightarrow> jv list \<Rightarrow> jv \<Rightarrow> jv" where
  "rewriteDep pid subtaskIds (JStr s) =
     (if CHR ''.'' \<in> set s then JStr s
      else if allDigits s \<and> JNum (digitsToNum s) \<in> set subtaskIds
        then JStr (toStr pid @ ''.'' @ s)
      else JStr s)"
| "rewriteDep pid subtaskIds (JNum n) =
     (if JNum n \<in> set subtaskIds then JStr (toStr pid @ ''.'' @ numToString n) else JNum n)"
| "rewriteDep pid subtaskIds dep = dep"

definition subId :: "task \<Rightarrow> subtask \<Rightarrow> jv" where
  "subId t st = JStr (toStr (taskId t) @ ''.'' @ toStr (taskId st))"

text \<open>The object pushed for one subtask \<open>st\<close> of the task \<open>t\<close>.\<close>

definition flattenSubtask :: "task \<Rightarrow> jv list \<Rightarrow> subtask \<Rightarrow> flat" where
  "flattenSubtask t subtaskIds st =
     \<lparr> taskId = subId t st,
       title = title st, description = description st, details = details st,
       testStrategy = testStrategy st, status = status st,
       priority = (if priority st \<noteq> JUndefined then priority st else priority t),
       dependencies = map_option (map (rewriteDep (taskId t) subtaskIds)) (dependencies st),
       subtasks = None,
       parentId = Some (taskId t), isSubtask = True \<rparr>"

text \<open>The object pushed for the task \<open>t\<close> itself, after its subtasks.\<close>

definition flattenParent :: "task \<Rightarrow> jv list \<Rightarrow> flat" where
  "flattenParent t flattenedSubtaskIds =
     \<lparr> taskId = taskId t,
       title = title t, description = description t, details = details t,
       testStrategy = testStrategy t, status = status t, priority = priority t,
       dependencies = dependencies t,
       subtasks = Some flattenedSubtaskIds,
       parentId = None, isSubtask = False \<rparr>"

text \<open>
  The body of the loop over tasks, first copy of the module (lines 265-298 and
  301-332): every subtask of the array is flattened.
\<close>

definition flattenTask :: "task \<Rightarrow> (jv \<times> flat) list" where
  "flattenTask t =
     (case subtasks t of
        Some sts \<Rightarrow>
          (let subtaskIds = map taskId sts;
               flattenedSubtaskIds = map (subId t) sts
           in map (\<lambda>st. (subId t st, flattenSubtask t subtaskIds st)) sts
              @ [(taskId t, flattenParent t flattenedSubtaskIds)])
      | None \<Rightarrow> [(taskId t, flattenParent t [])])"

text \<open>
  The same loop body in the second copy of the module (lines 1224-1278 and
  1281-1326): the subtasks whose id is \<open>undefined\<close> or \<open>null\<close> are filtered out first.
\<close>

definition validSubtask :: "subtask \<Rightarrow> bool" where
  "validSubtask st = (taskId st \<noteq> JUndefined \<and> taskId st \<noteq> JNull)"

definition flattenTask_2 :: "task \<Rightarrow> (jv \<times> flat) list" where
  "flattenTask_2 t =
     (case subtasks t of
        Some sts \<Rightarrow>
          (let validSubtasks = filter validSubtask sts;
               subtaskIds = map taskId validSubtasks;
               flattenedSubtaskIds = map (subId t) validSubtasks
           in map (\<lambda>st. (subId t st, flattenSubtask t subtaskIds st)) validSubtasks
              @ [(taskId t, flattenParent t flattenedSubtaskIds)])
      | None \<Rightarrow> [(taskId t, flattenParent t [])])"

text \<open>\<open>flattenTasksWithTag\<close> returns the array of \<open>{id, task, tag}\<close>.\<close>

definition flattenTasksWithTag :: "task list \<Rightarrow> string \<Rightarrow> (jv \<times> flat \<times> string) list" where
  "flattenTasksWithTag tasks tag = map (\<lambda>(i, f). (i, f, tag)) (concat (map flattenTask tasks))"

definition flattenTasksWithTag_2 :: "task list \<Rightarrow> string \<Rightarrow> (jv \<times> flat \<times> string) list" where
  "flattenTasksWithTag_2 tasks tag = map (\<lambda>(i, f). (i, f, tag)) (concat (map flattenTask_2 tasks))"

text \<open>
  \<open>flattenTasksMap\<close> fills a \<open>Map\<close>. A JavaScript \<open>Map\<close> iterates in insertion
  order and \<open>set\<close> on a key already present replaces the value in place, which is
  \<open>mapSet\<close> on an association list.
\<close>

fun mapSet :: "'k \<Rightarrow> 'v \<Rightarrow> ('k \<times> 'v) list \<Rightarrow> ('k \<times> 'v) list" where
  "mapSet k v [] = [(k, v)]"
| "mapSet k v (p # ps) = (if fst p = k then (k, v) # ps else p # mapSet k v ps)"

definition mapSetAll :: "('k \<times> 'v) list \<Rightarrow> ('k \<times> 'v) list \<Rightarrow> ('k \<times> 'v) list" where
  "mapSetAll m kvs = foldl (\<lambda>acc (k, v). mapSet k v acc) m kvs"

definition flattenTasksMap :: "task list \<Rightarrow> (jv \<times> flat) list" where
  "flattenTasksMap tasks = mapSetAll [] (concat (map flattenTask tasks))"

definition flattenTasksMap_2 :: "task list \<Rightarrow> (jv \<times> flat) list" where
  "flattenTasksMap_2 tasks = mapSetAll [] (concat (map flattenTask_2 tasks))"

section \<open>Diff Engine (notion.js, diffTasks and isTaskEqual)\<close>

fun arrayOrEmpty :: "'a list option \<Rightarrow> 'a list" where
  "arrayOrEmpty None = []"
| "arrayOrEmpty (Some xs) = xs"

text \<open>
  \<open>isTaskEqual\<close> is called on two values of the maps, which are objects, so its first
  test \<open>!a || !b\<close> is false. The fields are compared with \<open>!==\<close>, the two arrays
  by length and then element by element.
\<close>

definition isTaskEqual :: "flat \<Rightarrow> flat \<Rightarrow> bool" where
  "isTaskEqual a b =
     (if title a \<noteq> title b then False
      else if description a \<noteq> description b then False
      else if details a \<noteq> details b then False
      else if testStrategy a \<noteq> testStrategy b then False
      else if priority a \<noteq> priority b then False
      else if status a \<noteq> status b then False
      else if arrayOrEmpty (dependencies a) \<noteq> arrayOrEmpty (dependencies b) then False
      else if arrayOrEmpty (subtasks a) \<noteq> arrayOrEmpty (subtasks b) then False
      else True)"

text \<open>
  A change record. \<open>Moved\<close> carries the old id, the new id, both tasks, the old tag
  (\<open>prev_tag\<close>) and the new tag.
\<close>

datatype change =
    Added jv flat string
  | Deleted jv flat string
  | Updated jv flat flat string
  | Moved jv jv flat flat string string

fun isAdded :: "change \<Rightarrow> bool" where
  "isAdded (Added i c t) = True"
| "isAdded x = False"

fun isDeleted :: "change \<Rightarrow> bool" where
  "isDeleted (Deleted i p t) = True"
| "isDeleted x = False"

text \<open>
  A snapshot is an object from tag names to tag entries; the list gives the order of
  \<open>Object.keys\<close>. An entry is \<open>Some tasks\<close> when it is an object whose \<open>tasks\<close>
  field is an array, \<open>None\<close> otherwise. The snapshot itself is \<open>None\<close> when the
  argument is not an object.
\<close>

type_synonym snapshot = "(string \<times> task list option) list"

definition snapshotObj :: "snapshot option \<Rightarrow> snapshot" where
  "snapshotObj s = (case s of Some obj \<Rightarrow> obj | None \<Rightarrow> [])"

definition tagsOf :: "snapshot \<Rightarrow> string list" where
  "tagsOf obj = filter (\<lambda>tag. case map_of obj tag of Some (Some ts) \<Rightarrow> True | _ \<Rightarrow> False) (map fst obj)"

definition tagTasks :: "snapshot \<Rightarrow> string \<Rightarrow> task list" where
  "tagTasks obj tag = (case map_of obj tag of Some (Some ts) \<Rightarrow> ts | _ \<Rightarrow> [])"

text \<open>\<open>Array.from(new Set(xs))\<close>: the first occurrence of every element, in order.\<close>

definition uniqueInOrder :: "'a list \<Rightarrow> 'a list" where
  "uniqueInOrder xs = rev (remdups (rev xs))"

text \<open>The two loops over the maps of a tag present in both snapshots.\<close>

definition deletedUpdated :: "string \<Rightarrow> (jv \<times> flat) list \<Rightarrow> (jv \<times> flat) list \<Rightarrow> change list" where
  "deletedUpdated tag prevMap curMap =
     concat (map (\<lambda>(i, prevTask).
        (case map_of curMap i of
           None \<Rightarrow> [Deleted i prevTask tag]
         | Some curTask \<Rightarrow>
             (if \<not> isTaskEqual prevTask curTask then [Updated i prevTask curTask tag] else [])))
       prevMap)"

definition addedOnly :: "string \<Rightarrow> (jv \<times> flat) list \<Rightarrow> (jv \<times> flat) list \<Rightarrow> change list" where
  "addedOnly tag prevMap curMap =
     concat (map (\<lambda>(i, curTask).
        (case map_of prevMap i of None \<Rightarrow> [Added i curTask tag] | Some p \<Rightarrow> [])) curMap)"

text \<open>
  The body of the loop over all tags. The two copies of \<open>diffTasks\<close> are the same text
  and call the flatteners of their own copy, which are the parameters \<open>fl\<close>
  (\<open>flattenTasksWithTag\<close>) and \<open>fm\<close> (\<open>flattenTasksMap\<close>).
\<close>

definition tagChanges ::
  "(task list \<Rightarrow> string \<Rightarrow> (jv \<times> flat \<times> string) list) \<Rightarrow> (task list \<Rightarrow> (jv \<times> flat) list) \<Rightarrow>
   snapshot \<Rightarrow> snapshot \<Rightarrow> string \<Rightarrow> change list" where
  "tagChanges fl fm prevObj curObj tag =
     (let prevTagTasks = tagTasks prevObj tag;
          curTagTasks = tagTasks curObj tag;
          prevTags = tagsOf prevObj;
          curTags = tagsOf curObj
      in if tag \<in> set prevTags \<and> tag \<notin> set curTags
           then map (\<lambda>(i, f, tg). Deleted i f tag) (fl prevTagTasks tag)
         else if tag \<notin> set prevTags \<and> tag \<in> set curTags
           then map (\<lambda>(i, f, tg). Added i f tag) (fl curTagTasks tag)
         else (let prevMap = fm prevTagTasks; curMap = fm curTagTasks
               in deletedUpdated tag prevMap curMap @ addedOnly tag prevMap curMap))"

text \<open>
  Move detection. The fields compared are read as \<open>v || ''\<close>. For a deletion the
  inner loop stops at the first addition with the same content; the test does not look
  at the \<open>_matched\<close> mark of the addition. The marks are kept as the lists of the
  matched positions.
\<close>

definition orEmpty :: "jv \<Rightarrow> jv" where
  "orEmpty v = (if falsy v then JStr [] else v)"

definition sameContent :: "flat \<Rightarrow> flat \<Rightarrow> bool" where
  "sameContent p c =
     (orEmpty (title p) = orEmpty (title c) \<and>
      orEmpty (description p) = orEmpty (description c) \<and>
      orEmpty (details p) = orEmpty (details c) \<and>
      orEmpty (testStrategy p) = orEmpty (testStrategy c) \<and>
      orEmpty (status p) = orEmpty (status c))"

fun prevOf :: "change \<Rightarrow> flat option" where
  "prevOf (Deleted i p t) = Some p"
| "prevOf (Updated i p c t) = Some p"
| "prevOf (Moved i j p c pt t) = Some p"
| "prevOf (Added i c t) = None"

fun curOf :: "change \<Rightarrow> flat option" where
  "curOf (Added i c t) = Some c"
| "curOf (Updated i p c t) = Some c"
| "curOf (Moved i j p c pt t) = Some c"
| "curOf (Deleted i p t) = None"

text \<open>The inner loop: the position of the first addition equal in content, if any.\<close>

fun firstMatch :: "flat \<Rightarrow> change list \<Rightarrow> nat \<Rightarrow> nat option" where
  "firstMatch p [] k = None"
| "firstMatch p (a # as) k =
     (case curOf a of
        Some c \<Rightarrow> (if sameContent p c then Some k else firstMatch p as (Suc k))
      | None \<Rightarrow> firstMatch p as (Suc k))"

fun movedRecord :: "change \<Rightarrow> change \<Rightarrow> change list" where
  "movedRecord (Deleted i p pt) (Added j c t) = [Moved i j p c pt t]"
| "movedRecord d a = []"

text \<open>
  The outer loop over the deletions, at position \<open>k\<close>: it returns the \<open>moved\<close>
  records, the positions of the matched deletions and of the matched additions.
\<close>

fun detectMoves :: "change list \<Rightarrow> change list \<Rightarrow> nat \<Rightarrow> change list \<times> nat list \<times> nat list" where
  "detectMoves [] added k = ([], [], [])"
| "detectMoves (d # ds) added k =
     (case prevOf d of
        None \<Rightarrow> detectMoves ds added (Suc k)
      | Some p \<Rightarrow>
          (case firstMatch p added 0 of
             None \<Rightarrow> detectMoves ds added (Suc k)
           | Some j \<Rightarrow>
               (case detectMoves ds added (Suc k) of
                  (moved, md, ma) \<Rightarrow> (movedRecord d (added ! j) @ moved, k # md, j # ma))))"

definition unmatched :: "change list \<Rightarrow> nat list \<Rightarrow> change list" where
  "unmatched cs marks = map fst (filter (\<lambda>(c, k). k \<notin> set marks) (zip cs [0..<length cs]))"

definition moveDetection :: "change list \<Rightarrow> change list" where
  "moveDetection changes =
     (let added = filter isAdded changes;
          deleted = filter isDeleted changes
      in case detectMoves deleted added 0 of
           (moved, md, ma) \<Rightarrow>
             filter (\<lambda>c. \<not> isAdded c \<and> \<not> isDeleted c) changes
             @ unmatched added ma @ unmatched deleted md @ moved)"

definition diffTasksWith ::
  "(task list \<Rightarrow> string \<Rightarrow> (jv \<times> flat \<times> string) list) \<Rightarrow> (task list \<Rightarrow> (jv \<times> flat) list) \<Rightarrow>
   snapshot option \<Rightarrow> snapshot option \<Rightarrow> change list" where
  "diffTasksWith fl fm previous current =
     (let prevObj = snapshotObj previous;
          curObj = snapshotObj current;
          allTags = uniqueInOrder (tagsOf prevObj @ tagsOf curObj);
          changes = concat (map (tagChanges fl fm prevObj curObj) allTags)
      in moveDetection changes)"

text \<open>\<open>diffTasks\<close> of the first copy (line 141) and of the second (line 1079).\<close>

definition diffTasks :: "snapshot option \<Rightarrow> snapshot option \<Rightarrow> change list" where
  "diffTasks = diffTasksWith flattenTasksWithTag flattenTasksMap"

definition diffTasks_2 :: "snapshot option \<Rightarrow> snapshot option \<Rightarrow> change list" where
  "diffTasks_2 = diffTasksWith flattenTasksWithTag_2 flattenTasksMap_2"

section \<open>Identity Map Store (notion.js, getNotionPageId, setNotionPageId, removeNotionPageId)\<close>

text \<open>
  The mapping is an object from tag names to inner objects, and an inner object maps
  a local id (as a property key, the string of the id) to a remote page id. Both
  functions copy the outer object with a spread and then write through
  \<open>newMapping[tag]\<close>, which is the inner object the original mapping holds too, so
  the objects live in a store and a mapping holds the addresses of its inner tables.
  An address is a position in the store.
\<close>

record heap =
  outers :: "(string \<times> nat) list list"
  inners :: "(string \<times> string) list list"

text \<open>\<open>mapping?.[tag]?.[id]\<close>; \<open>None\<close> is \<open>undefined\<close>.\<close>

definition getNotionPageId :: "heap \<Rightarrow> nat option \<Rightarrow> string \<Rightarrow> jv \<Rightarrow> string option" where
  "getNotionPageId h mapping tag i =
     (case mapping of
        None \<Rightarrow> None
      | Some m \<Rightarrow>
          (case map_of (outers h ! m) tag of
             None \<Rightarrow> None
           | Some a \<Rightarrow> map_of (inners h ! a) (toStr i)))"

text \<open>\<open>{ ...mapping }\<close>: a new outer object with the same entries.\<close>

definition spreadMapping :: "heap \<Rightarrow> nat option \<Rightarrow> nat \<times> heap" where
  "spreadMapping h mapping =
     (length (outers h),
      h\<lparr>outers := outers h @ [case mapping of None \<Rightarrow> [] | Some m \<Rightarrow> outers h ! m]\<rparr>)"

definition setNotionPageId :: "heap \<Rightarrow> nat option \<Rightarrow> string \<Rightarrow> jv \<Rightarrow> string \<Rightarrow> nat \<times> heap" where
  "setNotionPageId h mapping tag i notionId =
     (case spreadMapping h mapping of
        (newMapping, h1) \<Rightarrow>
          (let h2 = (case map_of (outers h1 ! newMapping) tag of
                       None \<Rightarrow>
                         h1\<lparr>outers := (outers h1)[newMapping :=
                                        mapSet tag (length (inners h1)) (outers h1 ! newMapping)],
                            inners := inners h1 @ [[]]\<rparr>
                     | Some a \<Rightarrow> h1);
               a = the (map_of (outers h2 ! newMapping) tag);
               h3 = h2\<lparr>inners := (inners h2)[a := mapSet (toStr i) notionId (inners h2 ! a)]\<rparr>
           in (newMapping, h3)))"

definition removeNotionPageId :: "heap \<Rightarrow> nat option \<Rightarrow> string \<Rightarrow> jv \<Rightarrow> nat \<times> heap" where
  "removeNotionPageId h mapping tag i =
     (case spreadMapping h mapping of
        (newMapping, h1) \<Rightarrow>
          (case map_of (outers h1 ! newMapping) tag of
             None \<Rightarrow> (newMapping, h1)
           | Some a \<Rightarrow>
               (let h2 = h1\<lparr>inners := (inners h1)[a :=
                               filter (\<lambda>p. fst p \<noteq> toStr i) (inners h1 ! a)]\<rparr>;
                    h3 = (if inners h2 ! a = []
                          then h2\<lparr>outers := (outers h2)[newMapping :=
                                    filter (\<lambda>p. fst p \<noteq> tag) (outers h2 ! newMapping)]\<rparr>
                          else h2)
                in (newMapping, h3))))"

text \<open>
  A mapping of the store is well formed when its address and the addresses of its
  inner tables are allocated and two tags do not share an inner table (a mapping read
  from the mapping file is a tree).
\<close>

definition wfMapping :: "heap \<Rightarrow> nat \<Rightarrow> bool" where
  "wfMapping h m =
     (m < length (outers h) \<and>
      list_all (\<lambda>p. snd p < length (inners h)) (outers h ! m) \<and>
      distinct (map fst (outers h ! m)) \<and> distinct (map snd (outers h ! m)))"

section \<open>Rich text chunks (notion.js, splitRichTextByWord)\<close>

text \<open>
  \<open>content.lastIndexOf(' ', pos)\<close> is the greatest index not above \<open>pos\<close> that
  holds a space, or \<open>-1\<close>; a negative \<open>pos\<close> is read as \<open>0\<close>.
\<close>

fun lastIndexUpTo :: "string \<Rightarrow> char \<Rightarrow> nat \<Rightarrow> int" where
  "lastIndexUpTo s c 0 = (if 0 < length s \<and> s ! 0 = c then 0 else - 1)"
| "lastIndexUpTo s c (Suc k) =
     (if Suc k < length s \<and> s ! Suc k = c then int (Suc k) else lastIndexUpTo s c k)"

definition lastIndexOf :: "string \<Rightarrow> char \<Rightarrow> int \<Rightarrow> int" where
  "lastIndexOf s c pos = lastIndexUpTo s c (nat pos)"

text \<open>\<open>content.slice(a, b)\<close>: a negative index counts from the end.\<close>

definition sliceIndex :: "string \<Rightarrow> int \<Rightarrow> nat" where
  "sliceIndex s a = (if a < 0 then nat (max (int (length s) + a) 0) else nat (min a (int (length s))))"

definition slice :: "string \<Rightarrow> int \<Rightarrow> int \<Rightarrow> string" where
  "slice s a b = take (sliceIndex s b - sliceIndex s a) (drop (sliceIndex s a) s)"

definition charAt :: "string \<Rightarrow> int \<Rightarrow> char option" where
  "charAt s a = (if 0 \<le> a \<and> a < int (length s) then Some (s ! nat a) else None)"

text \<open>
  The \<open>while\<close> loop. A chunk \<open>{text: {content: c}}\<close> is its string \<open>c\<close>. The test
  \<open>lastSpace > start + chunkSize * 0.7\<close> is taken over the rationals, times ten. The
  loop does not end for every chunk size (with \<open>chunkSize = 0\<close> the position never
  moves), so it is a partial function: \<open>None\<close> stands for no result.
\<close>

definition chunkEnd :: "string \<Rightarrow> int \<Rightarrow> int \<Rightarrow> int" where
  "chunkEnd content chunkSize start =
     (let end0 = min (start + chunkSize) (int (length content))
      in if end0 < int (length content)
         then (let lastSpace = lastIndexOf content CHR '' '' end0
               in if 10 * lastSpace > 10 * start + 7 * chunkSize then lastSpace else end0)
         else end0)"

partial_function (option) splitLoop :: "string \<Rightarrow> int \<Rightarrow> int \<Rightarrow> string list \<Rightarrow> string list option" where
  "splitLoop content chunkSize start result =
     (if start < int (length content)
      then (let endPos = chunkEnd content chunkSize start
            in splitLoop content chunkSize
                 (if charAt content endPos = Some CHR '' '' then endPos + 1 else endPos)
                 (result @ [slice content start endPos]))
      else Some result)"

declare splitLoop.simps [code]

text \<open>\<open>content\<close> is \<open>None\<close> when absent; \<open>chunkSize\<close> is \<open>None\<close> for the default.\<close>

definition splitRichTextByWord :: "string option \<Rightarrow> int option \<Rightarrow> string list option" where
  "splitRichTextByWord content chunkSize =
     (case content of
        None \<Rightarrow> Some []
      | Some c \<Rightarrow>
          (if c = [] then Some []
           else splitLoop c (case chunkSize of None \<Rightarrow> 2000 | Some n \<Rightarrow> n) 0 []))"

section \<open>Retry Executor (notion.js, executeWithRetry)\<close>











section \<open>Transactional operations (notion-operations.js, CompositeOperation)\<close>

text \<open>
  An operation has a name, \<open>execute()\<close> and \<open>rollback(result)\<close>; both act on the
  state of the world and may throw. The composite keeps the list
  \<open>executedOperations\<close> of the operations run so far with their results.
\<close>

record ('s, 'r, 'e) operation =
  opName :: string
  execute :: "'s \<Rightarrow> ('e + 'r) \<times> 's"
  rollback :: "'r \<Rightarrow> 's \<Rightarrow> ('e + unit) \<times> 's"

record ('s, 'r, 'e) composite =
  compName :: string
  operations :: "('s, 'r, 'e) operation list"
  executedOperations :: "(('s, 'r, 'e) operation \<times> 'r) list"

definition CompositeOperation :: "string \<Rightarrow> ('s, 'r, 'e) operation list \<Rightarrow> ('s, 'r, 'e) composite" where
  "CompositeOperation nm ops = \<lparr> compName = nm, operations = ops, executedOperations = [] \<rparr>"

text \<open>
  \<open>rollbackExecuted\<close>: from the last executed operation down to the first; an error
  thrown by a rollback is caught (and logged), and the loop goes on.
\<close>

fun rollbackFrom :: "(('s, 'r, 'e) operation \<times> 'r) list \<Rightarrow> nat \<Rightarrow> 's \<Rightarrow> 's" where
  "rollbackFrom ex 0 s = s"
| "rollbackFrom ex (Suc i) s = rollbackFrom ex i (snd (rollback (fst (ex ! i)) (snd (ex ! i)) s))"

definition rollbackExecuted :: "('s, 'r, 'e) composite \<Rightarrow> 's \<Rightarrow> ('s, 'r, 'e) composite \<times> 's" where
  "rollbackExecuted c s =
     (c\<lparr>executedOperations := []\<rparr>,
      rollbackFrom (executedOperations c) (length (executedOperations c)) s)"

text \<open>
  The loop of \<open>execute()\<close> over the operations left; a result entry is
  \<open>{operation: name, result, success: true}\<close>.
\<close>

fun executeLoop ::
  "('s, 'r, 'e) composite \<Rightarrow> ('s, 'r, 'e) operation list \<Rightarrow> (string \<times> 'r \<times> bool) list \<Rightarrow> 's
   \<Rightarrow> ('e + (string \<times> 'r \<times> bool) list) \<times> ('s, 'r, 'e) composite \<times> 's" where
  "executeLoop c [] results s = (Inr results, c, s)"
| "executeLoop c (opn # ops) results s =
     (case fst (execute opn s) of
        Inr r \<Rightarrow>
          executeLoop (c\<lparr>executedOperations := executedOperations c @ [(opn, r)]\<rparr>) ops
            (results @ [(opName opn, r, True)]) (snd (execute opn s))
      | Inl error \<Rightarrow>
          (case rollbackExecuted c (snd (execute opn s)) of
             (c', s') \<Rightarrow> (Inl error, c', s')))"

definition compositeExecute ::
  "('s, 'r, 'e) composite \<Rightarrow> 's \<Rightarrow> ('e + (string \<times> 'r \<times> bool) list) \<times> ('s, 'r, 'e) composite \<times> 's" where
  "compositeExecute c s = executeLoop c (operations c) [] s"

text \<open>
  An operation wrapped so that the state also records, in order, which \<open>execute\<close>
  and which \<open>rollback\<close> were invoked.
\<close>

datatype event = Executed string | RolledBack string

definition traced :: "('s, 'r, 'e) operation \<Rightarrow> ('s \<times> event list, 'r, 'e) operation" where
  "traced opn =
     \<lparr> opName = opName opn,
       execute = (\<lambda>(s, log). (fst (execute opn s), (snd (execute opn s), log @ [Executed (opName opn)]))),
       rollback = (\<lambda>r (s, log). (fst (rollback opn r s),
                                  (snd (rollback opn r s), log @ [RolledBack (opName opn)]))) \<rparr>"

section \<open>Capability detection (notion-reset-command.js, checkRelationProperties)\<close>

text \<open>
  Strings are lists of bytes; \<open>toLowerCase\<close> is modelled on the ASCII letters and
  leaves every other byte as it is.
\<close>

definition lowerChar :: "char \<Rightarrow> char" where
  "lowerChar c = (if 65 \<le> (of_char c :: nat) \<and> (of_char c :: nat) \<le> 90
                  then char_of ((of_char c :: nat) + 32) else c)"

definition toLowerCase :: "string \<Rightarrow> string" where
  "toLowerCase s = map lowerChar s"

text \<open>\<open>s.includes(sub)\<close>: \<open>sub\<close> occurs in \<open>s\<close> at some position.\<close>

fun strIncludes :: "string \<Rightarrow> string \<Rightarrow> bool" where
  "strIncludes [] sub = (sub = [])"
| "strIncludes (c # cs) sub = (take (length sub) (c # cs) = sub \<or> strIncludes cs sub)"

record relationStatus =
  hasParentRelation :: bool
  hasSubItemRelation :: bool
  hasDependencyRelation :: bool
  parentRelationName :: "string option"
  subItemRelationName :: "string option"
  dependencyRelationName :: "string option"

text \<open>
  A database has \<open>properties\<close> or not; an entry of \<open>Object.entries(properties)\<close> is
  the name of a property and its \<open>type\<close>.
\<close>

record database =
  properties :: "(string \<times> string) list option"

definition relationStep :: "relationStatus \<Rightarrow> string \<times> string \<Rightarrow> relationStatus" where
  "relationStep st p =
     (case p of (name, ptype) \<Rightarrow>
        (if ptype = ''relation'' then
           (let nameLower = toLowerCase name
            in if strIncludes nameLower ''parent''
                 then st\<lparr>hasParentRelation := True, parentRelationName := Some name\<rparr>
               else if strIncludes nameLower ''sub''
                 then st\<lparr>hasSubItemRelation := True, subItemRelationName := Some name\<rparr>
               else if strIncludes nameLower ''dependenc''
                 then st\<lparr>hasDependencyRelation := True, dependencyRelationName := Some name\<rparr>
               else st)
         else st))"

definition initialStatus :: relationStatus where
  "initialStatus = \<lparr> hasParentRelation = False, hasSubItemRelation = False,
     hasDependencyRelation = False, parentRelationName = None,
     subItemRelationName = None, dependencyRelationName = None \<rparr>"

text \<open>\<open>Object.entries(database.properties || {})\<close>.\<close>

definition propertyEntries :: "database \<Rightarrow> (string \<times> string) list" where
  "propertyEntries db = (case properties db of None \<Rightarrow> [] | Some ps \<Rightarrow> ps)"

definition checkRelationProperties :: "database \<Rightarrow> relationStatus" where
  "checkRelationProperties db = foldl relationStep initialStatus (propertyEntries db)"

section \<open>Inputs of the evaluations\<close>

text \<open>A task with an id, a title and a status, and no other field.\<close>

definition simpleTask :: "int \<Rightarrow> string \<Rightarrow> string \<Rightarrow> task" where
  "simpleTask i t s =
     \<lparr> taskId = JNum i, title = JStr t, description = JUndefined, details = JUndefined,
       testStrategy = JUndefined, status = JStr s, priority = JUndefined,
       dependencies = None, subtasks = None \<rparr>"

text \<open>A subtask with the given id and dependencies, and a parent holding subtasks.\<close>

definition simpleSubtask :: "jv \<Rightarrow> jv list option \<Rightarrow> subtask" where
  "simpleSubtask i deps =
     \<lparr> taskId = i, title = JStr ''child'', description = JUndefined, details = JUndefined,
       testStrategy = JUndefined, status = JStr ''pending'', priority = JUndefined,
       dependencies = deps, subtasks = () \<rparr>"

definition parentTask :: "int \<Rightarrow> subtask list \<Rightarrow> task" where
  "parentTask i sts =
     \<lparr> taskId = JNum i, title = JStr ''P'', description = JUndefined, details = JUndefined,
       testStrategy = JUndefined, status = JStr ''pending'', priority = JStr ''high'',
       dependencies = None, subtasks = Some sts \<rparr>"





text \<open>
  Operations on a list of page names: one appends a page and removes it on rollback,
  one throws.
\<close>

definition createPage :: "string \<Rightarrow> (string list, string, string) operation" where
  "createPage p =
     \<lparr> opName = p, execute = (\<lambda>s. (Inr p, s @ [p])), rollback = (\<lambda>r s. (Inr (), removeAll r s)) \<rparr>"

definition failingOp :: "string \<Rightarrow> (string list, string, string) operation" where
  "failingOp p =
     \<lparr> opName = p, execute = (\<lambda>s. (Inl ''boom'', s)), rollback = (\<lambda>r s. (Inr (), s)) \<rparr>"

text \<open>
  A store with one mapping, at address \<open>0\<close>: \<open>{x: {"1": "p"}}\<close>; and a database
  schema with the three relations and a text property.
\<close>

definition sharedHeap :: heap where
  "sharedHeap = \<lparr> outers = [[(''x'', 0)]], inners = [[(''1'', ''p'')]] \<rparr>"

definition exampleDatabase :: database where
  "exampleDatabase = \<lparr> properties = Some [(''Parent item'', ''relation''), (''Sub-item'', ''relation''),
       (''Dependencies'', ''relation''), (''Subtitle'', ''rich_text'')] \<rparr>"

section \<open>Diff Engine: properties\<close>

lemma mapSet_keys: "fst ` set (mapSet k v m) = insert k (fst ` set m)"
  by (induction m) auto

lemma mapSet_distinct: "distinct (map fst m) \<Longrightarrow> distinct (map fst (mapSet k v m))"
  by (induction m) (auto simp: mapSet_keys)

lemma mapSetAll_distinct: "distinct (map fst m) \<Longrightarrow> distinct (map fst (mapSetAll m kvs))"
  unfolding mapSetAll_def
  by (induction kvs arbitrary: m) (auto simp: mapSet_distinct split: prod.splits)

lemma isTaskEqual_refl: "isTaskEqual t t"
  by (simp add: isTaskEqual_def)

lemma deletedUpdated_same: "distinct (map fst m) \<Longrightarrow> deletedUpdated tag m m = []"
  by (auto simp: deletedUpdated_def isTaskEqual_refl split: option.splits)

lemma addedOnly_same: "addedOnly tag m m = []"
  by (auto simp: addedOnly_def split: option.splits dest: weak_map_of_SomeI)

lemma tagChanges_same:
  assumes "\<And>ts. distinct (map fst (fm ts))"
  shows "tagChanges fl fm obj obj = (\<lambda>tag. [])"
  by (rule ext) (simp add: tagChanges_def Let_def deletedUpdated_same [OF assms] addedOnly_same)

lemma concat_map_Nil: "concat (map (\<lambda>x. []) xs) = []"
  by (induction xs) simp_all

lemma moveDetection_Nil: "moveDetection [] = []"
  by (simp add: moveDetection_def unmatched_def)

lemma diffTasksWith_same:
  assumes "\<And>ts. distinct (map fst (fm ts))"
  shows "diffTasksWith fl fm S S = []"
  by (simp add: diffTasksWith_def Let_def tagChanges_same [OF assms] moveDetection_Nil concat_map_Nil)

text \<open>
  C1. For every snapshot \<open>S\<close> (also an absent one), \<open>diffTasks(S, S)\<close> is the empty
  list of change records: nothing is added, deleted, updated or moved. Both copies of
  the function.
\<close>

theorem diffTasks_same_snapshot: "diffTasks S S = [] \<and> diffTasks_2 S S = []"
  by (simp add: diffTasks_def diffTasks_2_def diffTasksWith_same flattenTasksMap_def
      flattenTasksMap_2_def mapSetAll_distinct)

theorem diffTasks_same_snapshot_witness:
  "diffTasks (Some [(''x'', Some [parentTask 5 [simpleSubtask (JNum 1) None], simpleTask 6 ''A'' ''done''])])
     (Some [(''x'', Some [parentTask 5 [simpleSubtask (JNum 1) None], simpleTask 6 ''A'' ''done''])]) = []"
  using diffTasks_same_snapshot
    [of "Some [(''x'', Some [parentTask 5 [simpleSubtask (JNum 1) None], simpleTask 6 ''A'' ''done''])]"]
  by simp

text \<open>
  C2, evaluated where it fails. The previous snapshot holds two tasks of equal content
  under tag \<open>x\<close>, the current one a single task of that content under tag \<open>y\<close>. The
  inner loop of the move detection does not skip an addition already matched, so the
  one added entity is the new side of two \<open>moved\<close> records.
\<close>

theorem diffTasks_added_entity_in_two_moves:
  "diffTasks (Some [(''x'', Some [simpleTask 1 ''A'' ''pending'', simpleTask 2 ''A'' ''pending''])])
     (Some [(''y'', Some [simpleTask 1 ''A'' ''pending''])]) =
   [Moved (JNum 1) (JNum 1) (flattenParent (simpleTask 1 ''A'' ''pending'') [])
      (flattenParent (simpleTask 1 ''A'' ''pending'') []) ''x'' ''y'',
    Moved (JNum 2) (JNum 1) (flattenParent (simpleTask 2 ''A'' ''pending'') [])
      (flattenParent (simpleTask 1 ''A'' ''pending'') []) ''x'' ''y'']"
  by code_simp

text \<open>
  C3. Previous snapshot: the task \<open>{id: 1, title: "A", status: "pending"}\<close> alone
  under tag \<open>x\<close>; current snapshot: the same task alone under tag \<open>y\<close>. The diff is
  exactly one record, \<open>moved\<close>, from tag \<open>x\<close> to tag \<open>y\<close>; no \<open>added\<close> and no
  \<open>deleted\<close> record. Both copies of the function.
\<close>

theorem diffTasks_move_between_tags:
  "diffTasks (Some [(''x'', Some [simpleTask 1 ''A'' ''pending''])])
     (Some [(''y'', Some [simpleTask 1 ''A'' ''pending''])]) =
   [Moved (JNum 1) (JNum 1) (flattenParent (simpleTask 1 ''A'' ''pending'') [])
      (flattenParent (simpleTask 1 ''A'' ''pending'') []) ''x'' ''y'']
   \<and> diffTasks_2 (Some [(''x'', Some [simpleTask 1 ''A'' ''pending''])])
     (Some [(''y'', Some [simpleTask 1 ''A'' ''pending''])]) =
   [Moved (JNum 1) (JNum 1) (flattenParent (simpleTask 1 ''A'' ''pending'') [])
      (flattenParent (simpleTask 1 ''A'' ''pending'') []) ''x'' ''y'']"
  by code_simp

section \<open>Snapshot Flattener: properties\<close>

lemma numToString_digits: "numToString 5 = ''5''" "numToString 1 = ''1''" "numToString 2 = ''2''"
  by code_simp+

lemma flattenTask_subtask_entry:
  assumes "subtasks t = Some sts" "st \<in> set sts"
  shows "(subId t st, flattenSubtask t (map taskId sts) st) \<in> set (flattenTask t)"
  using assms by (auto simp: flattenTask_def Let_def)

lemma flattenTask_2_subtask_entry:
  assumes "subtasks t = Some sts" "st \<in> set sts" "validSubtask st"
  shows "(subId t st, flattenSubtask t (map taskId (filter validSubtask sts)) st) \<in> set (flattenTask_2 t)"
  using assms by (auto simp: flattenTask_2_def Let_def)

lemma flattenSubtask_sibling_dependency:
  assumes "taskId t = JNum 5" "dependencies st = Some [JNum 1]"
  shows "dependencies (flattenSubtask t ids st) =
           Some [if JNum 1 \<in> set ids then JStr ''5.1'' else JNum 1]"
  using assms by (simp add: flattenSubtask_def numToString_digits)

lemma flattenSubtask_compound_dependency:
  assumes "dependencies st = Some ds" "k < length ds" "ds ! k = JStr s" "CHR ''.'' \<in> set s"
  shows "map_option (\<lambda>xs. xs ! k) (dependencies (flattenSubtask t ids st)) = Some (JStr s)"
  using assms by (simp add: flattenSubtask_def)

text \<open>
  C4. A subtask with id \<open>2\<close> and dependencies \<open>[1]\<close> under a parent with id \<open>5\<close> is
  flattened to the entity \<open>"5.2"\<close>, whose dependencies are \<open>["5.1"]\<close> exactly when a
  subtask with id \<open>1\<close> is among the parent's subtasks, and \<open>[1]\<close> otherwise; in both
  copies of the flattener. A dependency that is a string with a dot is left as it is,
  whatever the parent and the siblings.
\<close>

theorem subtask_dependency_rewriting:
  assumes "t \<in> set tasks" and "taskId t = JNum 5" and "subtasks t = Some sts"
    and "st \<in> set sts" and "taskId st = JNum 2" and "dependencies st = Some [JNum 1]"
  shows "(JStr ''5.2'', flattenSubtask t (map taskId sts) st, tag) \<in> set (flattenTasksWithTag tasks tag)
    \<and> dependencies (flattenSubtask t (map taskId sts) st) =
        Some [if JNum 1 \<in> taskId ` set sts then JStr ''5.1'' else JNum 1]
    \<and> (JStr ''5.2'', flattenSubtask t (map taskId (filter validSubtask sts)) st, tag)
        \<in> set (flattenTasksWithTag_2 tasks tag)
    \<and> dependencies (flattenSubtask t (map taskId (filter validSubtask sts)) st) =
        Some [if JNum 1 \<in> taskId ` set sts then JStr ''5.1'' else JNum 1]
    \<and> (\<forall>p ids st' ds k s. dependencies st' = Some ds \<and> k < length ds \<and> ds ! k = JStr s
          \<and> CHR ''.'' \<in> set s
        \<longrightarrow> map_option (\<lambda>xs. xs ! k) (dependencies (flattenSubtask p ids st')) = Some (JStr s))"
proof -
  have sid: "subId t st = JStr ''5.2''"
    using assms by (simp add: subId_def numToString_digits)
  have valid: "validSubtask st"
    using assms by (simp add: validSubtask_def)
  have one: "JNum 1 \<in> taskId ` set (filter validSubtask sts) \<longleftrightarrow> JNum 1 \<in> taskId ` set sts"
    by (auto simp: validSubtask_def)
  have "(subId t st, flattenSubtask t (map taskId sts) st) \<in> set (flattenTask t)"
    using assms flattenTask_subtask_entry by blast
  with sid assms(1)
  have a: "(JStr ''5.2'', flattenSubtask t (map taskId sts) st, tag) \<in> set (flattenTasksWithTag tasks tag)"
    by (force simp: flattenTasksWithTag_def)
  have "(subId t st, flattenSubtask t (map taskId (filter validSubtask sts)) st) \<in> set (flattenTask_2 t)"
    using assms valid flattenTask_2_subtask_entry by blast
  with sid assms(1)
  have b: "(JStr ''5.2'', flattenSubtask t (map taskId (filter validSubtask sts)) st, tag)
             \<in> set (flattenTasksWithTag_2 tasks tag)"
    by (force simp: flattenTasksWithTag_2_def)
  have c: "dependencies (flattenSubtask t (map taskId sts) st) =
        Some [if JNum 1 \<in> taskId ` set sts then JStr ''5.1'' else JNum 1]"
    using flattenSubtask_sibling_dependency [OF assms(2) assms(6), of "map taskId sts"] by simp
  have d: "dependencies (flattenSubtask t (map taskId (filter validSubtask sts)) st) =
        Some [if JNum 1 \<in> taskId ` set sts then JStr ''5.1'' else JNum 1]"
    using flattenSubtask_sibling_dependency [OF assms(2) assms(6), of "map taskId (filter validSubtask sts)"] one
    by simp
  have e: "\<forall>p ids st' ds k s. dependencies st' = Some ds \<and> k < length ds \<and> ds ! k = JStr s
          \<and> CHR ''.'' \<in> set s
        \<longrightarrow> map_option (\<lambda>xs. xs ! k) (dependencies (flattenSubtask p ids st')) = Some (JStr s)"
    using flattenSubtask_compound_dependency by blast
  from a b c d e show ?thesis by blast
qed

theorem subtask_dependency_rewriting_witness:
  "dependencies (flattenSubtask
      (parentTask 5 [simpleSubtask (JNum 1) None, simpleSubtask (JNum 2) (Some [JNum 1])])
      [JNum 1, JNum 2] (simpleSubtask (JNum 2) (Some [JNum 1]))) = Some [JStr ''5.1'']
   \<and> dependencies (flattenSubtask
      (parentTask 5 [simpleSubtask (JNum 3) None, simpleSubtask (JNum 2) (Some [JNum 1])])
      [JNum 3, JNum 2] (simpleSubtask (JNum 2) (Some [JNum 1]))) = Some [JNum 1]"
proof -
  have st: "taskId (simpleSubtask (JNum 2) (Some [JNum 1])) = JNum 2"
    "dependencies (simpleSubtask (JNum 2) (Some [JNum 1])) = Some [JNum 1]"
    by (simp_all add: simpleSubtask_def)
  have ids: "taskId (simpleSubtask (JNum 1) None) = JNum 1" "taskId (simpleSubtask (JNum 3) None) = JNum 3"
    by (simp_all add: simpleSubtask_def)
  have p: "taskId (parentTask 5 sts) = JNum 5" "subtasks (parentTask 5 sts) = Some sts" for sts
    by (simp_all add: parentTask_def)
  have m: "x \<in> set [x]" "y \<in> set [z, y]" for x y z :: "'a"
    by simp_all
  note a = subtask_dependency_rewriting [OF m(1) p(1) p(2) m(2) st(1) st(2), of _ "''x''",
      THEN conjunct2, THEN conjunct1]
  show ?thesis
    using a [of "simpleSubtask (JNum 1) None"] a [of "simpleSubtask (JNum 3) None"]
    by (simp add: st ids)
qed

text \<open>
  In the second copy of the flattener a subtask without an id leaves no trace: every
  entity of a subtask comes from a subtask with an id, and the parent's reference list
  holds the compound ids of those subtasks only.
\<close>

lemma flattenTask_2_skips_invalid:
  assumes "(i, f) \<in> set (flattenTask_2 t)"
  shows "(isSubtask f \<longrightarrow> (\<exists>sts st. subtasks t = Some sts \<and> st \<in> set sts \<and> validSubtask st \<and> i = subId t st))
       \<and> (\<not> isSubtask f \<longrightarrow> subtasks f = Some (map (subId t) (filter validSubtask (arrayOrEmpty (subtasks t)))))"
  using assms
  by (auto simp: flattenTask_2_def Let_def flattenSubtask_def flattenParent_def split: option.splits)

text \<open>
  C8, evaluated where it fails. The first copy of the flattener (lines 265-298) does
  not filter: for a task with id \<open>5\<close> and one subtask without an id it produces an
  entity \<open>"5.undefined"\<close> and lists that id in the parent's subtasks. The second copy
  (lines 1224-1278) produces the parent alone, with an empty list.
\<close>

theorem flattenTasksWithTag_keeps_subtask_without_id:
  "map (\<lambda>(i, f, tg). (i, isSubtask f, subtasks f))
     (flattenTasksWithTag [parentTask 5 [simpleSubtask JUndefined None]] ''x'') =
   [(JStr ''5.undefined'', True, None), (JNum 5, False, Some [JStr ''5.undefined''])]
   \<and> map (\<lambda>(i, f, tg). (i, isSubtask f, subtasks f))
     (flattenTasksWithTag_2 [parentTask 5 [simpleSubtask JUndefined None]] ''x'') =
   [(JNum 5, False, Some [])]"
  by code_simp

section \<open>Rich text chunks: properties\<close>

lemma lastIndexUpTo_le: "lastIndexUpTo s c n \<le> int n"
  by (induction n) auto

lemma chunkEnd_bounds:
  assumes "0 < cs" "0 \<le> start" "start < int (length content)"
  shows "start < chunkEnd content cs start"
    and "chunkEnd content cs start \<le> start + cs"
    and "chunkEnd content cs start \<le> int (length content)"
proof -
  define end0 where "end0 = min (start + cs) (int (length content))"
  have e0: "start < end0" "end0 \<le> start + cs" "end0 \<le> int (length content)"
    using assms by (simp_all add: end0_def)
  have ls: "lastIndexOf content CHR '' '' end0 \<le> end0"
    using lastIndexUpTo_le [of content "CHR '' ''" "nat end0"] e0 assms
    by (simp add: lastIndexOf_def)
  have ce: "chunkEnd content cs start =
     (if end0 < int (length content)
      then (if 10 * lastIndexOf content CHR '' '' end0 > 10 * start + 7 * cs
            then lastIndexOf content CHR '' '' end0 else end0)
      else end0)"
    by (simp add: chunkEnd_def Let_def end0_def)
  show "start < chunkEnd content cs start"
    using e0 ls assms by (simp add: ce)
  show "chunkEnd content cs start \<le> start + cs"
    using e0 ls by (simp add: ce)
  show "chunkEnd content cs start \<le> int (length content)"
    using e0 ls by (simp add: ce)
qed

lemma length_slice:
  assumes "0 \<le> a" "a \<le> b" "b \<le> int (length s)"
  shows "int (length (slice s a b)) = b - a"
  using assms by (simp add: slice_def sliceIndex_def)

lemma splitLoop_total:
  assumes "0 < cs"
  shows "0 \<le> start \<Longrightarrow> \<forall>c\<in>set result. int (length c) \<le> cs \<Longrightarrow>
     \<exists>chunks. splitLoop content cs start result = Some chunks \<and> (\<forall>c\<in>set chunks. int (length c) \<le> cs)"
proof (induction "nat (int (length content) - start)" arbitrary: start result rule: less_induct)
  case less
  show ?case
  proof (cases "start < int (length content)")
    case False
    then show ?thesis
      using less.prems by (subst splitLoop.simps) simp
  next
    case True
    define e where "e = chunkEnd content cs start"
    define start' where "start' = (if charAt content e = Some CHR '' '' then e + 1 else e)"
    have b: "start < e" "e \<le> start + cs" "e \<le> int (length content)"
      using chunkEnd_bounds [OF assms less.prems(1) True] by (simp_all add: e_def)
    have s': "e \<le> start'"
      by (simp add: start'_def)
    have m: "nat (int (length content) - start') < nat (int (length content) - start)"
      using b s' True by linarith
    have l: "int (length (slice content start e)) \<le> cs"
      using length_slice [of start e content] b less.prems(1) by simp
    have "\<forall>c\<in>set (result @ [slice content start e]). int (length c) \<le> cs"
      using less.prems(2) l by simp
    moreover have "0 \<le> start'"
      using b s' less.prems(1) by linarith
    ultimately obtain chunks where
      "splitLoop content cs start' (result @ [slice content start e]) = Some chunks"
      "\<forall>c\<in>set chunks. int (length c) \<le> cs"
      using less.hyps [OF m] by blast
    moreover have "splitLoop content cs start result =
        splitLoop content cs start' (result @ [slice content start e])"
      unfolding e_def start'_def
      using True by (subst splitLoop.simps) (simp add: Let_def)
    ultimately show ?thesis
      by simp
  qed
qed

text \<open>
  C10. For every content and every positive chunk size (an integer; 2000 when it is
  not given), \<open>splitRichTextByWord\<close> returns, and every chunk it returns is at most
  \<open>chunkSize\<close> long; for an absent or empty content it returns the empty list.
\<close>

theorem splitRichTextByWord_terminates_bounded:
  assumes "\<forall>n. chunkSize = Some n \<longrightarrow> 0 < n"
  shows "(\<exists>chunks. splitRichTextByWord content chunkSize = Some chunks
            \<and> (\<forall>c\<in>set chunks. int (length c) \<le> (case chunkSize of None \<Rightarrow> 2000 | Some n \<Rightarrow> n)))
       \<and> splitRichTextByWord None chunkSize = Some []
       \<and> splitRichTextByWord (Some []) chunkSize = Some []"
proof -
  define cs where "cs = (case chunkSize of None \<Rightarrow> 2000 | Some n \<Rightarrow> n)"
  have pos: "0 < cs"
    using assms by (auto simp: cs_def split: option.splits)
  have "\<exists>chunks. splitLoop c cs 0 [] = Some chunks \<and> (\<forall>x\<in>set chunks. int (length x) \<le> cs)" for c
    using splitLoop_total [OF pos, of 0 "[]" c] by simp
  then show ?thesis
    by (auto simp: splitRichTextByWord_def cs_def split: option.splits)
qed

theorem splitRichTextByWord_terminates_bounded_witness:
  "(\<exists>chunks. splitRichTextByWord (Some ''hello world this is a test'') (Some 10) = Some chunks
       \<and> (\<forall>c\<in>set chunks. int (length c) \<le> 10))
   \<and> splitRichTextByWord (Some ''hello world this is a test'') (Some 10) =
       Some [''hello worl'', ''d this is'', ''a test'']"
proof -
  have pos: "\<forall>n. Some (10::int) = Some n \<longrightarrow> 0 < n"
    by simp
  have "splitRichTextByWord (Some ''hello world this is a test'') (Some 10) =
       Some [''hello worl'', ''d this is'', ''a test'']"
    by code_simp
  with splitRichTextByWord_terminates_bounded [OF pos, of "Some ''hello world this is a test''"]
  show ?thesis
    by simp
qed

section \<open>Retry Executor: properties\<close>








section \<open>Transactional operations: properties\<close>

lemma traced_execute:
  "fst (execute (traced opn) (s, log)) = fst (execute opn s)"
  "snd (execute (traced opn) (s, log)) = (snd (execute opn s), log @ [Executed (opName opn)])"
  by (simp_all add: traced_def)

lemma traced_rollback:
  "snd (rollback (traced opn) r (s, log)) = (snd (rollback opn r s), log @ [RolledBack (opName opn)])"
  by (simp add: traced_def)

lemma traced_name: "opName (traced opn) = opName opn"
  by (simp add: traced_def)

text \<open>
  C6. A composite of three operations whose first two \<open>execute\<close> succeed and whose
  third throws: the composite throws the same error, and the invocations are, in
  order, the three \<open>execute\<close>, then the rollback of the second operation (with its
  result), then the rollback of the first; each once.
\<close>

theorem composite_third_fails:
  assumes "fst (execute o1 s0) = Inr r1"
    and "fst (execute o2 (snd (execute o1 s0))) = Inr r2"
    and "fst (execute o3 (snd (execute o2 (snd (execute o1 s0))))) = Inl err"
  shows "compositeExecute (CompositeOperation nm [traced o1, traced o2, traced o3]) (s0, []) =
     (Inl err, CompositeOperation nm [traced o1, traced o2, traced o3],
      (snd (rollback o1 r1 (snd (rollback o2 r2
          (snd (execute o3 (snd (execute o2 (snd (execute o1 s0))))))))),
       [Executed (opName o1), Executed (opName o2), Executed (opName o3),
        RolledBack (opName o2), RolledBack (opName o1)]))"
proof -
  have two: "rollbackFrom ex 2 s = rollbackFrom ex 0
      (snd (rollback (fst (ex ! 0)) (snd (ex ! 0)) (snd (rollback (fst (ex ! 1)) (snd (ex ! 1)) s))))"
    for ex :: "(('a \<times> event list, 'b, 'c) operation \<times> 'b) list" and s
    by (simp add: numeral_2_eq_2)
  show ?thesis
    using assms
    by (simp add: compositeExecute_def CompositeOperation_def rollbackExecuted_def
        traced_execute traced_rollback traced_name two)
qed

theorem composite_third_fails_witness:
  "compositeExecute (CompositeOperation ''reset''
      [traced (createPage ''a''), traced (createPage ''b''), traced (failingOp ''c'')]) ([], []) =
   (Inl ''boom'',
    CompositeOperation ''reset'' [traced (createPage ''a''), traced (createPage ''b''), traced (failingOp ''c'')],
    ([], [Executed ''a'', Executed ''b'', Executed ''c'', RolledBack ''b'', RolledBack ''a'']))"
proof -
  have a: "fst (execute (createPage ''a'') []) = Inr ''a''"
    by (simp add: createPage_def)
  have b: "fst (execute (createPage ''b'') (snd (execute (createPage ''a'') []))) = Inr ''b''"
    by (simp add: createPage_def)
  have c: "fst (execute (failingOp ''c'') (snd (execute (createPage ''b'') (snd (execute (createPage ''a'') []))))) = Inl ''boom''"
    by (simp add: failingOp_def)
  show ?thesis
    using composite_third_fails [OF a b c, of "''reset''"]
    by (simp add: createPage_def failingOp_def)
qed

section \<open>Identity Map Store: properties\<close>

lemma map_of_mapSet: "map_of (mapSet k v m) = (map_of m)(k \<mapsto> v)"
  by (induction m) (auto simp: fun_eq_iff)

lemma map_of_filter_key: "map_of (filter (\<lambda>p. fst p \<noteq> k) m) = (map_of m)(k := None)"
  by (induction m) (auto simp: fun_eq_iff)

lemma map_of_Nil_filter:
  "filter (\<lambda>p. fst p \<noteq> k) m = [] \<Longrightarrow> k' \<noteq> k \<Longrightarrow> map_of m k' = None"
  by (induction m) (auto split: if_splits)

lemma distinct_snd_inj:
  "distinct (map snd ps) \<Longrightarrow> map_of ps t = Some a \<Longrightarrow> map_of ps t' = Some a \<Longrightarrow> t = t'"
proof (induction ps)
  case Nil
  then show ?case by simp
next
  case (Cons p ps)
  then show ?case
    by (cases p) (force split: if_splits dest: map_of_SomeD)
qed

lemma wf_addr:
  "wfMapping h m \<Longrightarrow> map_of (outers h ! m) t = Some a \<Longrightarrow> a < length (inners h)"
  by (auto simp: wfMapping_def list_all_iff dest!: map_of_SomeD)

lemma set_None:
  assumes "map_of (outers h ! m) tag = None"
  shows "setNotionPageId h (Some m) tag i nid =
     (length (outers h),
      h\<lparr>outers := outers h @ [mapSet tag (length (inners h)) (outers h ! m)],
        inners := inners h @ [[(toStr i, nid)]]\<rparr>)"
  using assms
  by (simp add: setNotionPageId_def spreadMapping_def Let_def map_of_mapSet)

lemma set_Some:
  assumes "map_of (outers h ! m) tag = Some a"
  shows "setNotionPageId h (Some m) tag i nid =
     (length (outers h),
      h\<lparr>outers := outers h @ [outers h ! m],
        inners := (inners h)[a := mapSet (toStr i) nid (inners h ! a)]\<rparr>)"
  using assms
  by (simp add: setNotionPageId_def spreadMapping_def Let_def)

lemma set_new:
  "fst (setNotionPageId h (Some m) tag i nid) = length (outers h)"
  by (cases "map_of (outers h ! m) tag") (simp_all add: set_None set_Some)

lemma set_result:
  assumes "wfMapping h m"
  shows "getNotionPageId (snd (setNotionPageId h (Some m) tag i nid))
           (Some (fst (setNotionPageId h (Some m) tag i nid))) t k =
         (if t = tag \<and> toStr k = toStr i then Some nid else getNotionPageId h (Some m) t k)"
proof (cases "map_of (outers h ! m) tag")
  case None
  show ?thesis
  proof (cases "map_of (outers h ! m) t")
    case n: None
    then show ?thesis
      using None by (simp add: set_None getNotionPageId_def map_of_mapSet)
  next
    case (Some b)
    then have "b < length (inners h)" "t \<noteq> tag"
      using wf_addr [OF assms Some] None by auto
    then show ?thesis
      using None Some by (simp add: set_None getNotionPageId_def map_of_mapSet nth_append)
  qed
next
  case (Some a)
  have lt: "a < length (inners h)"
    using wf_addr [OF assms Some] .
  show ?thesis
  proof (cases "map_of (outers h ! m) t")
    case None
    then have "t \<noteq> tag" using Some by auto
    then show ?thesis
      using None Some by (simp add: set_Some getNotionPageId_def)
  next
    case b: (Some b)
    have "b = a \<Longrightarrow> t = tag"
      using distinct_snd_inj [of "outers h ! m" t a tag] assms b Some
      by (simp add: wfMapping_def)
    moreover have "t = tag \<Longrightarrow> b = a"
      using b Some by simp
    ultimately have "b = a \<longleftrightarrow> t = tag"
      by blast
    then show ?thesis
      using Some b lt
      by (auto simp: set_Some getNotionPageId_def map_of_mapSet nth_list_update)
  qed
qed

lemma set_original_outer:
  assumes "wfMapping h m"
  shows "outers (snd (setNotionPageId h (Some m) tag i nid)) ! m = outers h ! m"
proof -
  have m: "m < length (outers h)"
    using assms by (simp add: wfMapping_def)
  then show ?thesis
    by (cases "map_of (outers h ! m) tag") (simp_all add: set_None set_Some nth_append)
qed

lemma set_original_others:
  assumes "wfMapping h m" "t \<noteq> tag \<or> map_of (outers h ! m) tag = None"
  shows "getNotionPageId (snd (setNotionPageId h (Some m) tag i nid)) (Some m) t k
           = getNotionPageId h (Some m) t k"
proof -
  have m: "m < length (outers h)"
    using assms by (simp add: wfMapping_def)
  show ?thesis
  proof (cases "map_of (outers h ! m) tag")
    case None
    show ?thesis
    proof (cases "map_of (outers h ! m) t")
      case n: None
      then show ?thesis
        using None m by (simp add: set_None getNotionPageId_def nth_append)
    next
      case (Some b)
      then have "b < length (inners h)"
        using wf_addr [OF assms(1) Some] by auto
      then show ?thesis
        using None Some m by (simp add: set_None getNotionPageId_def nth_append)
    qed
  next
    case (Some a)
    then have ne: "t \<noteq> tag" using assms(2) by auto
    show ?thesis
    proof (cases "map_of (outers h ! m) t")
      case None
      then show ?thesis
        using Some m by (simp add: set_Some getNotionPageId_def nth_append)
    next
      case b: (Some b)
      have "b = a \<Longrightarrow> t = tag"
        using distinct_snd_inj [of "outers h ! m" t a tag] assms(1) b Some
        by (simp add: wfMapping_def)
      then have "b \<noteq> a"
        using ne by blast
      then show ?thesis
        using Some b m by (simp add: set_Some getNotionPageId_def nth_append)
    qed
  qed
qed


lemma remove_None:
  assumes "map_of (outers h ! m) tag = None"
  shows "removeNotionPageId h (Some m) tag i = (length (outers h), h\<lparr>outers := outers h @ [outers h ! m]\<rparr>)"
  using assms by (simp add: removeNotionPageId_def spreadMapping_def)

lemma remove_Some_empty:
  assumes "map_of (outers h ! m) tag = Some a" "a < length (inners h)"
    "filter (\<lambda>p. fst p \<noteq> toStr i) (inners h ! a) = []"
  shows "removeNotionPageId h (Some m) tag i =
     (length (outers h),
      h\<lparr>outers := outers h @ [filter (\<lambda>p. fst p \<noteq> tag) (outers h ! m)],
        inners := (inners h)[a := []]\<rparr>)"
  using assms by (simp add: removeNotionPageId_def spreadMapping_def Let_def)

lemma remove_Some_rest:
  assumes "map_of (outers h ! m) tag = Some a" "a < length (inners h)"
    "filter (\<lambda>p. fst p \<noteq> toStr i) (inners h ! a) \<noteq> []"
  shows "removeNotionPageId h (Some m) tag i =
     (length (outers h),
      h\<lparr>outers := outers h @ [outers h ! m],
        inners := (inners h)[a := filter (\<lambda>p. fst p \<noteq> toStr i) (inners h ! a)]\<rparr>)"
  using assms by (simp add: removeNotionPageId_def spreadMapping_def Let_def)

lemma remove_new:
  assumes "wfMapping h m"
  shows "fst (removeNotionPageId h (Some m) tag i) = length (outers h)"
proof (cases "map_of (outers h ! m) tag")
  case None
  then show ?thesis by (simp add: remove_None)
next
  case (Some a)
  have lt: "a < length (inners h)"
    using wf_addr [OF assms Some] .
  show ?thesis
    by (cases "filter (\<lambda>p. fst p \<noteq> toStr i) (inners h ! a) = []")
       (simp_all add: remove_Some_empty [OF Some lt] remove_Some_rest [OF Some lt])
qed

lemma remove_result:
  assumes "wfMapping h m"
  shows "getNotionPageId (snd (removeNotionPageId h (Some m) tag i))
           (Some (fst (removeNotionPageId h (Some m) tag i))) t k =
         (if t = tag \<and> toStr k = toStr i then None else getNotionPageId h (Some m) t k)"
proof (cases "map_of (outers h ! m) tag")
  case None
  then show ?thesis
    by (auto simp: remove_None getNotionPageId_def split: option.splits)
next
  case (Some a)
  have lt: "a < length (inners h)"
    using wf_addr [OF assms Some] .
  have other: "b \<noteq> a" if "map_of (outers h ! m) t = Some b" "t \<noteq> tag" for b
    using distinct_snd_inj [of "outers h ! m" t a tag] assms that Some
    by (auto simp: wfMapping_def)
  show ?thesis
  proof (cases "filter (\<lambda>p. fst p \<noteq> toStr i) (inners h ! a) = []")
    case True
    show ?thesis
    proof (cases "t = tag")
      case t: True
      then show ?thesis
        using Some map_of_Nil_filter [OF True, of "toStr k"]
        by (simp add: remove_Some_empty [OF Some lt True] getNotionPageId_def map_of_filter_key)
    next
      case False
      then show ?thesis
        using other
        by (auto simp: remove_Some_empty [OF Some lt True] getNotionPageId_def map_of_filter_key
            split: option.splits)
    qed
  next
    case False
    show ?thesis
    proof (cases "t = tag")
      case True
      then show ?thesis
        using Some lt
        by (simp add: remove_Some_rest [OF Some lt False] getNotionPageId_def map_of_filter_key)
    next
      case f: False
      then show ?thesis
        using other
        by (auto simp: remove_Some_rest [OF Some lt False] getNotionPageId_def
            split: option.splits)
    qed
  qed
qed

lemma remove_original_outer:
  assumes "wfMapping h m"
  shows "outers (snd (removeNotionPageId h (Some m) tag i)) ! m = outers h ! m"
proof -
  have m: "m < length (outers h)"
    using assms by (simp add: wfMapping_def)
  show ?thesis
  proof (cases "map_of (outers h ! m) tag")
    case None
    then show ?thesis using m by (simp add: remove_None nth_append)
  next
    case (Some a)
    have lt: "a < length (inners h)"
      using wf_addr [OF assms Some] .
    show ?thesis
      using m
      by (cases "filter (\<lambda>p. fst p \<noteq> toStr i) (inners h ! a) = []")
         (simp_all add: remove_Some_empty [OF Some lt] remove_Some_rest [OF Some lt] nth_append)
  qed
qed

lemma remove_original_others:
  assumes "wfMapping h m" "t \<noteq> tag"
  shows "getNotionPageId (snd (removeNotionPageId h (Some m) tag i)) (Some m) t k
           = getNotionPageId h (Some m) t k"
proof -
  have m: "m < length (outers h)"
    using assms by (simp add: wfMapping_def)
  show ?thesis
  proof (cases "map_of (outers h ! m) tag")
    case None
    then show ?thesis using m by (simp add: remove_None getNotionPageId_def nth_append split: option.splits)
  next
    case (Some a)
    have lt: "a < length (inners h)"
      using wf_addr [OF assms(1) Some] .
    have other: "b \<noteq> a" if "map_of (outers h ! m) t = Some b" for b
      using distinct_snd_inj [of "outers h ! m" t a tag] assms that Some
      by (auto simp: wfMapping_def)
    show ?thesis
      using m other
      by (cases "filter (\<lambda>p. fst p \<noteq> toStr i) (inners h ! a) = []")
         (auto simp: remove_Some_empty [OF Some lt] remove_Some_rest [OF Some lt] nth_append
            getNotionPageId_def split: option.splits)
  qed
qed

text \<open>
  What the spread does copy. For a well-formed mapping, \<open>setNotionPageId\<close> and
  \<open>removeNotionPageId\<close> return a new outer object (a fresh address) that reflects the
  update: the entry \<open>(tag, id)\<close> is set, or removed, and every other entry reads as
  in the original. The original outer object keeps its entries, and every entry of the
  original under another tag reads as before.
\<close>

lemma mapping_update_new_outer_object:
  assumes "wfMapping h m"
  shows "fst (setNotionPageId h (Some m) tag i nid) = length (outers h)
    \<and> fst (removeNotionPageId h (Some m) tag i) = length (outers h)
    \<and> (\<forall>t k. getNotionPageId (snd (setNotionPageId h (Some m) tag i nid))
                 (Some (fst (setNotionPageId h (Some m) tag i nid))) t k =
               (if t = tag \<and> toStr k = toStr i then Some nid else getNotionPageId h (Some m) t k))
    \<and> (\<forall>t k. getNotionPageId (snd (removeNotionPageId h (Some m) tag i))
                 (Some (fst (removeNotionPageId h (Some m) tag i))) t k =
               (if t = tag \<and> toStr k = toStr i then None else getNotionPageId h (Some m) t k))
    \<and> outers (snd (setNotionPageId h (Some m) tag i nid)) ! m = outers h ! m
    \<and> outers (snd (removeNotionPageId h (Some m) tag i)) ! m = outers h ! m
    \<and> (\<forall>t k. t \<noteq> tag \<or> map_of (outers h ! m) tag = None \<longrightarrow>
          getNotionPageId (snd (setNotionPageId h (Some m) tag i nid)) (Some m) t k
            = getNotionPageId h (Some m) t k)
    \<and> (\<forall>t k. t \<noteq> tag \<longrightarrow>
          getNotionPageId (snd (removeNotionPageId h (Some m) tag i)) (Some m) t k
            = getNotionPageId h (Some m) t k)"
  using set_new [of h m tag i nid] remove_new [OF assms, of tag i]
    set_result [OF assms, of tag i nid] remove_result [OF assms, of tag i]
    set_original_outer [OF assms, of tag i nid] remove_original_outer [OF assms, of tag i]
    set_original_others [OF assms, of _ tag i nid] remove_original_others [OF assms, of _ tag i]
  by blast

text \<open>
  What the spread does not copy. When the original mapping has an entry for the tag,
  the write goes through the inner table the original holds: after
  \<open>setNotionPageId\<close> the original mapping reads the new page id at \<open>(tag, id)\<close>,
  and after \<open>removeNotionPageId\<close> it has lost the entry.
\<close>

lemma set_writes_shared_inner_table:
  assumes "wfMapping h m" "map_of (outers h ! m) tag = Some a"
  shows "getNotionPageId (snd (setNotionPageId h (Some m) tag i nid)) (Some m) tag i = Some nid"
proof -
  have m: "m < length (outers h)"
    using assms(1) by (simp add: wfMapping_def)
  have lt: "a < length (inners h)"
    using wf_addr [OF assms] .
  show ?thesis
    using m lt assms(2)
    by (simp add: set_Some [OF assms(2)] getNotionPageId_def nth_append map_of_mapSet)
qed

lemma remove_writes_shared_inner_table:
  assumes "wfMapping h m" "map_of (outers h ! m) tag = Some a"
  shows "getNotionPageId (snd (removeNotionPageId h (Some m) tag i)) (Some m) tag i = None"
proof -
  have m: "m < length (outers h)"
    using assms(1) by (simp add: wfMapping_def)
  have lt: "a < length (inners h)"
    using wf_addr [OF assms] .
  show ?thesis
  proof (cases "filter (\<lambda>p. fst p \<noteq> toStr i) (inners h ! a) = []")
    case True
    show ?thesis
      using m lt assms(2)
      by (simp add: remove_Some_empty [OF assms(2) lt True] getNotionPageId_def nth_append)
  next
    case False
    show ?thesis
      using m lt assms(2)
      by (simp add: remove_Some_rest [OF assms(2) lt False] getNotionPageId_def nth_append
          map_of_filter_key)
  qed
qed

text \<open>
  C7, evaluated where it fails. The mapping \<open>{x: {"1": "p"}}\<close> is at address \<open>0\<close>
  of the store. After \<open>setNotionPageId(mapping, "x", 2, "q")\<close> the original mapping,
  read at the same address, has \<open>x["2"] = "q"\<close>, which it did not have; after
  \<open>removeNotionPageId(mapping, "x", 1)\<close> it has lost \<open>x["1"] = "p"\<close>. The claim
  says the original, its inner tables included, is left unchanged.
\<close>

theorem mapping_update_changes_original:
  "getNotionPageId sharedHeap (Some 0) ''x'' (JNum 2) = None
   \<and> getNotionPageId (snd (setNotionPageId sharedHeap (Some 0) ''x'' (JNum 2) ''q''))
        (Some 0) ''x'' (JNum 2) = Some ''q''
   \<and> getNotionPageId sharedHeap (Some 0) ''x'' (JNum 1) = Some ''p''
   \<and> getNotionPageId (snd (removeNotionPageId sharedHeap (Some 0) ''x'' (JNum 1)))
        (Some 0) ''x'' (JNum 1) = None"
  by code_simp

section \<open>Capability detection: properties\<close>

lemma relationStep_flags:
  "hasParentRelation (relationStep st p) =
     (hasParentRelation st \<or> snd p = ''relation'' \<and> strIncludes (toLowerCase (fst p)) ''parent'')"
  "hasSubItemRelation (relationStep st p) =
     (hasSubItemRelation st \<or> snd p = ''relation'' \<and> \<not> strIncludes (toLowerCase (fst p)) ''parent''
        \<and> strIncludes (toLowerCase (fst p)) ''sub'')"
  "hasDependencyRelation (relationStep st p) =
     (hasDependencyRelation st \<or> snd p = ''relation'' \<and> \<not> strIncludes (toLowerCase (fst p)) ''parent''
        \<and> \<not> strIncludes (toLowerCase (fst p)) ''sub''
        \<and> strIncludes (toLowerCase (fst p)) ''dependenc'')"
  by (auto simp: relationStep_def Let_def split: prod.splits)

lemma relationStep_names:
  "parentRelationName (relationStep st p) =
     (if snd p = ''relation'' \<and> strIncludes (toLowerCase (fst p)) ''parent''
      then Some (fst p) else parentRelationName st)"
  "subItemRelationName (relationStep st p) =
     (if snd p = ''relation'' \<and> \<not> strIncludes (toLowerCase (fst p)) ''parent''
        \<and> strIncludes (toLowerCase (fst p)) ''sub''
      then Some (fst p) else subItemRelationName st)"
  "dependencyRelationName (relationStep st p) =
     (if snd p = ''relation'' \<and> \<not> strIncludes (toLowerCase (fst p)) ''parent''
        \<and> \<not> strIncludes (toLowerCase (fst p)) ''sub''
        \<and> strIncludes (toLowerCase (fst p)) ''dependenc''
      then Some (fst p) else dependencyRelationName st)"
  by (auto simp: relationStep_def Let_def split: prod.splits)

lemma parent_flag:
  "hasParentRelation (foldl relationStep initialStatus ps) \<longleftrightarrow>
     (\<exists>p\<in>set ps. snd p = ''relation'' \<and> strIncludes (toLowerCase (fst p)) ''parent'')"
  by (induction ps rule: rev_induct) (auto simp: relationStep_flags initialStatus_def)

lemma sub_flag:
  "hasSubItemRelation (foldl relationStep initialStatus ps) \<longleftrightarrow>
     (\<exists>p\<in>set ps. snd p = ''relation'' \<and> \<not> strIncludes (toLowerCase (fst p)) ''parent''
         \<and> strIncludes (toLowerCase (fst p)) ''sub'')"
  by (induction ps rule: rev_induct) (auto simp: relationStep_flags initialStatus_def)

lemma dep_flag:
  "hasDependencyRelation (foldl relationStep initialStatus ps) \<longleftrightarrow>
     (\<exists>p\<in>set ps. snd p = ''relation'' \<and> \<not> strIncludes (toLowerCase (fst p)) ''parent''
         \<and> \<not> strIncludes (toLowerCase (fst p)) ''sub''
         \<and> strIncludes (toLowerCase (fst p)) ''dependenc'')"
  by (induction ps rule: rev_induct) (auto simp: relationStep_flags initialStatus_def)

lemma parent_name:
  "(case parentRelationName (foldl relationStep initialStatus ps) of
      None \<Rightarrow> \<not> hasParentRelation (foldl relationStep initialStatus ps)
    | Some n \<Rightarrow> hasParentRelation (foldl relationStep initialStatus ps)
        \<and> (n, ''relation'') \<in> set ps \<and> strIncludes (toLowerCase n) ''parent'')"
proof (induction ps rule: rev_induct)
  case Nil
  show ?case by (simp add: initialStatus_def)
next
  case (snoc p ps)
  then show ?case
    by (cases p) (auto simp: relationStep_flags relationStep_names split: option.splits)
qed

lemma sub_name:
  "(case subItemRelationName (foldl relationStep initialStatus ps) of
      None \<Rightarrow> \<not> hasSubItemRelation (foldl relationStep initialStatus ps)
    | Some n \<Rightarrow> hasSubItemRelation (foldl relationStep initialStatus ps)
        \<and> (n, ''relation'') \<in> set ps \<and> \<not> strIncludes (toLowerCase n) ''parent''
        \<and> strIncludes (toLowerCase n) ''sub'')"
proof (induction ps rule: rev_induct)
  case Nil
  show ?case by (simp add: initialStatus_def)
next
  case (snoc p ps)
  then show ?case
    by (cases p) (auto simp: relationStep_flags relationStep_names split: option.splits)
qed

lemma dep_name:
  "(case dependencyRelationName (foldl relationStep initialStatus ps) of
      None \<Rightarrow> \<not> hasDependencyRelation (foldl relationStep initialStatus ps)
    | Some n \<Rightarrow> hasDependencyRelation (foldl relationStep initialStatus ps)
        \<and> (n, ''relation'') \<in> set ps \<and> \<not> strIncludes (toLowerCase n) ''parent''
        \<and> \<not> strIncludes (toLowerCase n) ''sub'' \<and> strIncludes (toLowerCase n) ''dependenc'')"
proof (induction ps rule: rev_induct)
  case Nil
  show ?case by (simp add: initialStatus_def)
next
  case (snoc p ps)
  then show ?case
    by (cases p) (auto simp: relationStep_flags relationStep_names split: option.splits)
qed

text \<open>
  C9, as the code has it. The three tests are an \<open>if / else if\<close> chain on the
  lower-cased name of each relation-typed property, so a property counts for the first
  of \<open>parent\<close>, \<open>sub\<close>, \<open>dependenc\<close> its name contains. \<open>hasParentRelation\<close>
  holds exactly when some relation-typed property's name contains \<open>parent\<close>;
  \<open>hasSubItemRelation\<close> exactly when one contains \<open>sub\<close> and not \<open>parent\<close>;
  \<open>hasDependencyRelation\<close> exactly when one contains \<open>dependenc\<close> and neither
  \<open>parent\<close> nor \<open>sub\<close>. A flag that holds comes with the exact name of such a
  property, a flag that does not with no name; a property of another type sets nothing.
\<close>

theorem checkRelationProperties_first_match:
  "(hasParentRelation (checkRelationProperties db) \<longleftrightarrow>
      (\<exists>p\<in>set (propertyEntries db). snd p = ''relation'' \<and> strIncludes (toLowerCase (fst p)) ''parent''))
   \<and> (hasSubItemRelation (checkRelationProperties db) \<longleftrightarrow>
      (\<exists>p\<in>set (propertyEntries db). snd p = ''relation'' \<and> \<not> strIncludes (toLowerCase (fst p)) ''parent''
         \<and> strIncludes (toLowerCase (fst p)) ''sub''))
   \<and> (hasDependencyRelation (checkRelationProperties db) \<longleftrightarrow>
      (\<exists>p\<in>set (propertyEntries db). snd p = ''relation'' \<and> \<not> strIncludes (toLowerCase (fst p)) ''parent''
         \<and> \<not> strIncludes (toLowerCase (fst p)) ''sub''
         \<and> strIncludes (toLowerCase (fst p)) ''dependenc''))
   \<and> (case parentRelationName (checkRelationProperties db) of
        None \<Rightarrow> \<not> hasParentRelation (checkRelationProperties db)
      | Some n \<Rightarrow> hasParentRelation (checkRelationProperties db)
          \<and> (n, ''relation'') \<in> set (propertyEntries db) \<and> strIncludes (toLowerCase n) ''parent'')
   \<and> (case subItemRelationName (checkRelationProperties db) of
        None \<Rightarrow> \<not> hasSubItemRelation (checkRelationProperties db)
      | Some n \<Rightarrow> hasSubItemRelation (checkRelationProperties db)
          \<and> (n, ''relation'') \<in> set (propertyEntries db) \<and> \<not> strIncludes (toLowerCase n) ''parent''
          \<and> strIncludes (toLowerCase n) ''sub'')
   \<and> (case dependencyRelationName (checkRelationProperties db) of
        None \<Rightarrow> \<not> hasDependencyRelation (checkRelationProperties db)
      | Some n \<Rightarrow> hasDependencyRelation (checkRelationProperties db)
          \<and> (n, ''relation'') \<in> set (propertyEntries db) \<and> \<not> strIncludes (toLowerCase n) ''parent''
          \<and> \<not> strIncludes (toLowerCase n) ''sub'' \<and> strIncludes (toLowerCase n) ''dependenc'')"
  unfolding checkRelationProperties_def
  using parent_flag [of "propertyEntries db"] sub_flag [of "propertyEntries db"]
    dep_flag [of "propertyEntries db"] parent_name [of "propertyEntries db"]
    sub_name [of "propertyEntries db"] dep_name [of "propertyEntries db"]
  by blast

theorem checkRelationProperties_first_match_witness:
  "hasSubItemRelation (checkRelationProperties exampleDatabase)
   \<and> subItemRelationName (checkRelationProperties exampleDatabase) = Some ''Sub-item''"
proof -
  have e: "propertyEntries exampleDatabase =
      [(''Parent item'', ''relation''), (''Sub-item'', ''relation''),
       (''Dependencies'', ''relation''), (''Subtitle'', ''rich_text'')]"
    by (simp add: propertyEntries_def exampleDatabase_def)
  have s: "\<not> strIncludes (toLowerCase ''Sub-item'') ''parent''" "strIncludes (toLowerCase ''Sub-item'') ''sub''"
    by code_simp+
  have "\<exists>p\<in>set (propertyEntries exampleDatabase). snd p = ''relation''
          \<and> \<not> strIncludes (toLowerCase (fst p)) ''parent'' \<and> strIncludes (toLowerCase (fst p)) ''sub''"
    unfolding e using s by simp
  with checkRelationProperties_first_match [of exampleDatabase, THEN conjunct2, THEN conjunct1]
  have "hasSubItemRelation (checkRelationProperties exampleDatabase)"
    by blast
  moreover have "subItemRelationName (checkRelationProperties exampleDatabase) = Some ''Sub-item''"
    by code_simp
  ultimately show ?thesis
    by simp
qed

text \<open>
  C9 as stated fails for \<open>sub\<close>: the one relation-typed property
  \<open>"Parent sub-item"\<close> contains \<open>sub\<close>, and is taken by the \<open>parent\<close> branch, so
  \<open>hasSubItemRelation\<close> stays false.
\<close>

theorem checkRelationProperties_sub_shadowed_by_parent:
  "strIncludes (toLowerCase ''Parent sub-item'') ''sub''
   \<and> \<not> hasSubItemRelation
         (checkRelationProperties \<lparr>properties = Some [(''Parent sub-item'', ''relation'')]\<rparr>)"
  by code_simp

end
